theory Spec2Isabelle
  imports Main "HOL-Library.Word" "HOL-Library.Sublist"
begin

unbundle bit_operations_syntax

section \<open>Shared helpers\<close>

type_synonym uint32 = "32 word"

text \<open>
  Both packages carry the same \<^verbatim>\<open>hash\<close>: 32-bit FNV-1a over the bytes of the string
  (\<^verbatim>\<open>fnv.New32a\<close>, \<^verbatim>\<open>Write\<close>, \<^verbatim>\<open>Sum32\<close>). The state starts at the offset
  basis; every byte is xor-ed in and the state is multiplied by the prime, wrapping
  at 32 bits.
\<close>

definition offset32 :: uint32 where
  "offset32 = 2166136261"

definition prime32 :: uint32 where
  "prime32 = 16777619"

definition hash :: "string \<Rightarrow> uint32" where
  "hash s = foldl (\<lambda>h c. (h XOR of_nat (of_char c)) * prime32) offset32 s"

text \<open>
  The two list helpers of the \<^verbatim>\<open>dash\<close> package used by the director:
  \<^verbatim>\<open>FindStringIndex\<close> gives the position of the first equal element or \<open>-1\<close>,
  \<^verbatim>\<open>IncludesString\<close> says whether there is one.
\<close>

fun FindStringIndex :: "string list \<Rightarrow> string \<Rightarrow> int" where
  "FindStringIndex [] s = -1"
| "FindStringIndex (x # xs) s =
     (if x = s then 0
      else (let i = FindStringIndex xs s in if i = -1 then -1 else i + 1))"

definition IncludesString :: "string list \<Rightarrow> string \<Rightarrow> bool" where
  "IncludesString xs s = (FindStringIndex xs s \<noteq> -1)"

text \<open>\<^verbatim>\<open>append(xs[0:index], xs[index+1:]...)\<close>, the value of the resulting slice.\<close>

definition cut_at :: "'a list \<Rightarrow> int \<Rightarrow> 'a list" where
  "cut_at xs index = take (nat index) xs @ drop (nat (index + 1)) xs"

text \<open>\<^verbatim>\<open>strings.HasPrefix(s, p)\<close>.\<close>

definition HasPrefix :: "string \<Rightarrow> string \<Rightarrow> bool" where
  "HasPrefix s p = (take (length p) s = p)"

text \<open>The run-time panics that the modelled code can raise.\<close>

datatype panic =
    IntegerDivideByZero
  | RegexpCompile string
  | NilPointerDereference

section \<open>The director (package proxy)\<close>

record Director =
  Name :: string
  Policy :: string
  Ping :: string
  Backends :: "string list"
  availableBackends :: "string list"
  Hosts :: "string list"
  Prefixs :: "string list"
  Priority :: int
  roubin :: uint32

text \<open>
  What a select function can read besides the director: the request's resolved client
  address (\<^verbatim>\<open>c.RealIP()\<close>) and the value that \<^verbatim>\<open>rand.Uint32()\<close> returns at
  this call.
\<close>

record Context =
  RealIP :: string
  randUint32 :: uint32

type_synonym SelectFunc = "Context \<Rightarrow> Director \<Rightarrow> uint32 \<times> Director"

definition AddSelect ::
  "string \<Rightarrow> SelectFunc \<Rightarrow> (string \<rightharpoonup> SelectFunc) \<Rightarrow> (string \<rightharpoonup> SelectFunc)" where
  "AddSelect name fn m = m(name \<mapsto> fn)"

definition selectFirst :: SelectFunc where
  "selectFirst c d = (0, d)"

definition selectRandom :: SelectFunc where
  "selectRandom c d = (randUint32 c, d)"

text \<open>\<^verbatim>\<open>atomic.AddUint32(&d.roubin, 1)\<close> stores and returns the incremented counter.\<close>

definition selectRoundRobin :: SelectFunc where
  "selectRoundRobin c d = (roubin d + 1, d\<lparr>roubin := roubin d + 1\<rparr>)"

definition selectIPHash :: SelectFunc where
  "selectIPHash c d = (hash (RealIP c), d)"

text \<open>The registry after \<^verbatim>\<open>init\<close> has run.\<close>

definition selectFuncMap :: "string \<rightharpoonup> SelectFunc" where
  "selectFuncMap =
     AddSelect ''ipHash'' selectIPHash
       (AddSelect ''roundRobin'' selectRoundRobin
         (AddSelect ''random'' selectRandom
           (AddSelect ''first'' selectFirst Map.empty)))"

definition GetAvailableBackends :: "Director \<Rightarrow> string list" where
  "GetAvailableBackends d = availableBackends d"

text \<open>
  \<^verbatim>\<open>Select\<close>: an unregistered policy returns the empty string before anything else
  is read. Otherwise the length of the live list is converted to \<^verbatim>\<open>uint32\<close>, the
  select function runs (the round-robin one advances the counter), and the list is
  indexed at \<^verbatim>\<open>index % count\<close>; with \<^verbatim>\<open>count = 0\<close> the remainder panics. The
  director is returned as the call leaves it.
\<close>

definition Select :: "Context \<Rightarrow> Director \<Rightarrow> (panic + string) \<times> Director" where
  "Select c d =
     (case selectFuncMap (Policy d) of
        None \<Rightarrow> (Inr '''', d)
      | Some fn \<Rightarrow>
          (let avail = GetAvailableBackends d;
               count = (of_nat (length avail) :: uint32);
               (index, d') = fn c d
           in if count = 0 then (Inl IntegerDivideByZero, d')
              else (Inr (avail ! unat (index mod count)), d')))"

text \<open>Consecutive selections on one director: the addresses returned, in order.\<close>

fun select_many :: "nat \<Rightarrow> Context \<Rightarrow> Director \<Rightarrow> (panic + string) list \<times> Director" where
  "select_many 0 c d = ([], d)"
| "select_many (Suc n) c d =
     (let (r, d') = Select c d; (rs, d'') = select_many n c d' in (r # rs, d''))"


subsection \<open>Administrative operations\<close>


definition AddBackend :: "Director \<Rightarrow> string \<Rightarrow> Director" where
  "AddBackend d backend =
     (let backends = Backends d
      in if \<not> IncludesString backends backend then d\<lparr>Backends := backends @ [backend]\<rparr> else d)"

definition RemoveBackend :: "Director \<Rightarrow> string \<Rightarrow> Director" where
  "RemoveBackend d backend =
     (let backends = Backends d; index = FindStringIndex backends backend
      in if index \<noteq> -1 then d\<lparr>Backends := cut_at backends index\<rparr> else d)"

definition AddAvailableBackend :: "Director \<Rightarrow> string \<Rightarrow> Director" where
  "AddAvailableBackend d backend =
     (let backends = availableBackends d
      in if \<not> IncludesString backends backend
         then d\<lparr>availableBackends := backends @ [backend]\<rparr> else d)"

definition RemoveAvailableBackend :: "Director \<Rightarrow> string \<Rightarrow> Director" where
  "RemoveAvailableBackend d backend =
     (let backends = availableBackends d; index = FindStringIndex backends backend
      in if index \<noteq> -1 then d\<lparr>availableBackends := cut_at backends index\<rparr> else d)"





subsection \<open>Matching\<close>

text \<open>
  The regular-expression engine is Go's \<^verbatim>\<open>regexp\<close> package and is a parameter here:
  \<open>compile item\<close> is \<open>None\<close> where \<^verbatim>\<open>regexp.MustCompile(item)\<close> panics and
  otherwise the compiled expression, whose \<^verbatim>\<open>Match\<close> is the predicate on the host.
\<close>

type_synonym regexp = "string \<Rightarrow> bool"

text \<open>
  The loop over the host patterns: it leaves at the first pattern that matched; every
  pattern it reaches is compiled first.
\<close>

fun match_hosts :: "(string \<Rightarrow> regexp option) \<Rightarrow> string \<Rightarrow> string list \<Rightarrow> bool \<Rightarrow> panic + bool" where
  "match_hosts compile hostBytes [] match = Inr match"
| "match_hosts compile hostBytes (item # rest) match =
     (if match then Inr match
      else (case compile item of
              None \<Rightarrow> Inl (RegexpCompile item)
            | Some reg \<Rightarrow>
                match_hosts compile hostBytes rest (if reg hostBytes then True else match)))"

text \<open>The loop over the prefixes runs to the end of the list.\<close>

fun match_prefixs :: "string \<Rightarrow> string list \<Rightarrow> bool \<Rightarrow> bool" where
  "match_prefixs uri [] match = match"
| "match_prefixs uri (item # rest) match =
     match_prefixs uri rest (if \<not> match \<and> HasPrefix uri item then True else match)"

definition Match ::
  "(string \<Rightarrow> regexp option) \<Rightarrow> Director \<Rightarrow> string \<Rightarrow> string \<Rightarrow> panic + bool" where
  "Match compile d host uri =
     (let hosts = Hosts d; prefixs = Prefixs d
      in if length hosts = 0 \<and> length prefixs = 0 then Inr True
         else (case (if length hosts \<noteq> 0 then match_hosts compile host hosts False
                     else Inr False) of
                 Inl p \<Rightarrow> Inl p
               | Inr match \<Rightarrow>
                   if length hosts \<noteq> 0 \<and> \<not> match then Inr match
                   else if length prefixs \<noteq> 0 then Inr (match_prefixs uri prefixs False)
                   else Inr match))"

subsection \<open>Health checking\<close>

text \<open>
  The probe transport is a parameter: \<open>get i\<close> is what the \<open>i\<close>-th
  \<^verbatim>\<open>client.Get(url)\<close> of one check returns, an error or the status code of the
  response. The producer loop sends one value per attempt on the channel, 1 for a
  status code from 200 up to 399 and 0 otherwise, and then closes it.
\<close>

type_synonym get_result = "string + int"

function attempts :: "(nat \<Rightarrow> get_result) \<Rightarrow> nat \<Rightarrow> int list" where
  "attempts get i =
     (if i < 5
      then (case get i of
              Inl err \<Rightarrow> 0
            | Inr statusCode \<Rightarrow> if statusCode \<ge> 200 \<and> statusCode < 400 then 1 else 0)
           # attempts get (i + 1)
      else [])"
  by pat_completeness auto
termination
  by (relation "measure (\<lambda>(get, i). 5 - i)") auto

declare attempts.simps [simp del]

text \<open>The consumer adds up what arrives until the channel is closed.\<close>

definition doCheck :: "(string \<Rightarrow> nat \<Rightarrow> get_result) \<Rightarrow> string \<Rightarrow> bool" where
  "doCheck transport url =
     (let c = attempts (transport url) 0;
          successCount = foldl (\<lambda>successCount i. successCount + i) 0 c
      in if successCount \<ge> 3 then True else False)"

text \<open>
  One check cycle. Every configured backend is probed and the live list is updated
  under the lock, so the updates are atomic; they are applied here in the order of
  the backend list.
\<close>

definition HealthCheck :: "(string \<Rightarrow> nat \<Rightarrow> get_result) \<Rightarrow> Director \<Rightarrow> Director" where
  "HealthCheck transport d =
     foldl (\<lambda>d backend.
              (let url = backend @ Ping d; healthy = doCheck transport url
               in if healthy then AddAvailableBackend d backend
                  else RemoveAvailableBackend d backend))
       d (Backends d)"

text \<open>
  The probes run in one goroutine per backend, so the updates reach the live list in
  the order in which the probes finish. \<open>finished\<close> lists the probed backends in
  that order; the check above is the run in which they finish in configured order.
\<close>

definition HealthCheck_order ::
  "(string \<Rightarrow> nat \<Rightarrow> get_result) \<Rightarrow> string list \<Rightarrow> Director \<Rightarrow> Director" where
  "HealthCheck_order transport finished d =
     foldl (\<lambda>d backend.
              (let url = backend @ Ping d; healthy = doCheck transport url
               in if healthy then AddAvailableBackend d backend
                  else RemoveAvailableBackend d backend))
       d finished"

section \<open>The upstream (package upstream)\<close>

definition backupTag :: string where "backupTag = ''|backup''"
definition policyFirst :: string where "policyFirst = ''first''"
definition policyRandom :: string where "policyRandom = ''random''"
definition policyRoundRobin :: string where "policyRoundRobin = ''roundRobin''"
definition policyLeastconn :: string where "policyLeastconn = ''leastconn''"
definition policyIPHash :: string where "policyIPHash = ''ipHash''"
definition headerHashPrefix :: string where "headerHashPrefix = ''header:''"
definition cookieHashPrefix :: string where "cookieHashPrefix = ''cookie:''"

record Backend =
  Name_b :: string
  Policy_b :: string
  Ping_b :: string
  RequestHeader_b :: "string list"
  Header_b :: "string list"
  Prefixs_b :: "string list"
  Hosts_b :: "string list"
  Backends_b :: "string list"
  Rewrites_b :: "string list"

text \<open>
  \<^verbatim>\<open>up.HTTP\<close> belongs to an external package. Of the value built at construction the
  model keeps the ping path and the addresses in the order they were added, each with
  the flag that tells \<^verbatim>\<open>AddBackup\<close> from \<^verbatim>\<open>Add\<close>.
\<close>

record HTTP =
  Ping_h :: string
  added_h :: "(string \<times> bool) list"

type_synonym Header = "(string \<times> string list) list"

record Upstream =
  Policy_u :: string
  Priority_u :: int
  Name_u :: string
  Header_u :: "Header option"
  RequestHeader_u :: "Header option"
  server_u :: HTTP
  Hosts_u :: "string list"
  Prefixs_u :: "string list"
  Rewrites_u :: "string list"

text \<open>
  \<^verbatim>\<open>strings.Contains\<close> and \<^verbatim>\<open>strings.Replace\<close> with a count of 1 and a
  non-empty old string.
\<close>

fun Contains :: "string \<Rightarrow> string \<Rightarrow> bool" where
  "Contains [] substr = HasPrefix [] substr"
| "Contains (c # s) substr = (HasPrefix (c # s) substr \<or> Contains s substr)"

fun ReplaceFirst :: "string \<Rightarrow> string \<Rightarrow> string \<Rightarrow> string" where
  "ReplaceFirst [] old new = (if HasPrefix [] old then new else [])"
| "ReplaceFirst (c # s) old new =
     (if HasPrefix (c # s) old then new @ drop (length old) (c # s)
      else c # ReplaceFirst s old new)"

text \<open>
  \<^verbatim>\<open>strings.TrimSpace\<close> removes the white space of Unicode at both ends. In UTF-8 the
  six ASCII ones are single bytes, U+0085 and U+00A0 take two bytes, and U+1680,
  U+2000 to U+200A, U+2028, U+2029, U+202F, U+205F and U+3000 take three.
\<close>

definition isSpace :: "char \<Rightarrow> bool" where
  "isSpace c = (c \<in> set [CHR 0x09, CHR 0x0A, CHR 0x0B, CHR 0x0C, CHR 0x0D, CHR '' ''])"

definition isSpace2 :: "char \<Rightarrow> char \<Rightarrow> bool" where
  "isSpace2 c1 c2 = (c1 = CHR 0xC2 \<and> (c2 = CHR 0x85 \<or> c2 = CHR 0xA0))"

definition isSpace3 :: "char \<Rightarrow> char \<Rightarrow> char \<Rightarrow> bool" where
  "isSpace3 c1 c2 c3 =
     ((c1 = CHR 0xE1 \<and> c2 = CHR 0x9A \<and> c3 = CHR 0x80)
      \<or> (c1 = CHR 0xE2 \<and> c2 = CHR 0x80 \<and>
          ((of_char c3 :: nat) \<in> {0x80..0x8A} \<or> c3 = CHR 0xA8 \<or> c3 = CHR 0xA9 \<or> c3 = CHR 0xAF))
      \<or> (c1 = CHR 0xE2 \<and> c2 = CHR 0x81 \<and> c3 = CHR 0x9F)
      \<or> (c1 = CHR 0xE3 \<and> c2 = CHR 0x80 \<and> c3 = CHR 0x80))"

text \<open>
  Dropping the white space at the front of a string; \<open>two\<close> and \<open>three\<close>
  recognise the encodings of two and three bytes in the order the bytes are met.
\<close>

fun dropSpaces ::
  "(char \<Rightarrow> char \<Rightarrow> bool) \<Rightarrow> (char \<Rightarrow> char \<Rightarrow> char \<Rightarrow> bool) \<Rightarrow> string \<Rightarrow> string" where
  "dropSpaces two three [] = []"
| "dropSpaces two three [c1] = (if isSpace c1 then [] else [c1])"
| "dropSpaces two three [c1, c2] =
     (if isSpace c1 then dropSpaces two three [c2]
      else if two c1 c2 then [] else [c1, c2])"
| "dropSpaces two three (c1 # c2 # c3 # s) =
     (if isSpace c1 then dropSpaces two three (c2 # c3 # s)
      else if two c1 c2 then dropSpaces two three (c3 # s)
      else if three c1 c2 c3 then dropSpaces two three s
      else c1 # c2 # c3 # s)"

definition TrimSpace :: "string \<Rightarrow> string" where
  "TrimSpace s =
     rev (dropSpaces (\<lambda>c2 c1. isSpace2 c1 c2) (\<lambda>c3 c2 c1. isSpace3 c1 c2 c3)
            (rev (dropSpaces isSpace2 isSpace3 s)))"

text \<open>The loop that fills the server from the configured addresses.\<close>

fun add_backends :: "HTTP \<Rightarrow> string list \<Rightarrow> HTTP" where
  "add_backends uh [] = uh"
| "add_backends uh (item # rest) =
     (let backup = Contains item backupTag;
          item = (if backup then ReplaceFirst item backupTag [] else item);
          item = TrimSpace item
      in add_backends (uh\<lparr>added_h := added_h uh @ [(item, backup)]\<rparr>) rest)"

text \<open>
  \<^verbatim>\<open>util.ConvertToHTTPHeader\<close> is not among the sources and is a parameter
  (\<open>None\<close> for a nil result).
\<close>

definition createUpstreamFromBackend ::
  "(string list \<Rightarrow> Header option) \<Rightarrow> Backend \<Rightarrow> Upstream" where
  "createUpstreamFromBackend ConvertToHTTPHeader backend =
     (let priority = (8::int);
          priority = (if length (Hosts_b backend) \<noteq> 0 then priority - 4 else priority);
          priority = (if length (Prefixs_b backend) \<noteq> 0 then priority - 2 else priority);
          uh = add_backends \<lparr>Ping_h = Ping_b backend, added_h = []\<rparr> (Backends_b backend);
          us = \<lparr>Policy_u = Policy_b backend, Priority_u = priority, Name_u = Name_b backend,
                Header_u = None, RequestHeader_u = None, server_u = uh,
                Hosts_u = Hosts_b backend, Prefixs_u = Prefixs_b backend,
                Rewrites_u = Rewrites_b backend\<rparr>;
          us = (if Policy_u us = [] then us\<lparr>Policy_u := policyRoundRobin\<rparr> else us);
          us = (case ConvertToHTTPHeader (Header_b backend) of
                  None \<Rightarrow> us | Some h \<Rightarrow> us\<lparr>Header_u := Some h\<rparr>);
          us = (case ConvertToHTTPHeader (RequestHeader_b backend) of
                  None \<Rightarrow> us | Some rh \<Rightarrow> us\<lparr>RequestHeader_u := Some rh\<rparr>)
      in us)"

text \<open>
  \<^verbatim>\<open>NewUpstream\<close> builds the upstream, attaches the handler (the function
  \<open>createProxyHandler\<close> below, applied to the upstream) and starts the external health
  check; it returns the upstream and has no error result.
\<close>

definition NewUpstream :: "(string list \<Rightarrow> Header option) \<Rightarrow> Backend \<Rightarrow> Upstream" where
  "NewUpstream ConvertToHTTPHeader backend = createUpstreamFromBackend ConvertToHTTPHeader backend"

text \<open>What the handler and \<^verbatim>\<open>Upstream.Match\<close> read from the request.\<close>

record CodContext =
  RealIP_c :: string
  Host_c :: string
  RequestURI_c :: string
  RequestHeader_c :: "string \<rightharpoonup> string"
  Cookie_c :: "string \<rightharpoonup> string"

text \<open>\<^verbatim>\<open>c.GetRequestHeader(key)\<close> is the empty string for a header that is not there.\<close>

definition GetRequestHeader :: "CodContext \<Rightarrow> string \<Rightarrow> string" where
  "GetRequestHeader c key = (case RequestHeader_c c key of None \<Rightarrow> [] | Some v \<Rightarrow> v)"

text \<open>
  The methods of the external server that the handler calls, as they answer at the
  time of the request: each gives an upstream's URL or nil.
\<close>

type_synonym URL = string

record Server =
  PolicyFirst :: "URL option"
  PolicyRandom :: "URL option"
  PolicyRoundRobin :: "URL option"
  PolicyLeastconn :: "URL option"
  GetAvailableUpstream :: "uint32 \<Rightarrow> URL option"

datatype 'a outcome = Panic panic | errNoAvailableUpstream | Ok 'a

text \<open>
  The index of the \<^verbatim>\<open>default\<close> branch of the target picker: the hash of the named
  header for a \<^verbatim>\<open>header:\<close> policy, the hash of the named cookie's value for a
  \<^verbatim>\<open>cookie:\<close> policy when the cookie is there, and the zero value otherwise.
\<close>

definition defaultIndex :: "string \<Rightarrow> CodContext \<Rightarrow> uint32" where
  "defaultIndex policy c =
     (let isHeaderPolicy = HasPrefix policy headerHashPrefix;
          isCookiePolicy = (\<not> isHeaderPolicy \<and> HasPrefix policy cookieHashPrefix);
          key = (if isHeaderPolicy then drop (length headerHashPrefix) policy
                 else if isCookiePolicy then drop (length cookieHashPrefix) policy
                 else [])
      in if isHeaderPolicy then hash (GetRequestHeader c key)
         else if isCookiePolicy then (case Cookie_c c key of None \<Rightarrow> 0 | Some v \<Rightarrow> hash v)
         else 0)"

text \<open>
  The target picker of \<^verbatim>\<open>createProxyHandler\<close>. In the \<^verbatim>\<open>leastconn\<close> branch
  \<^verbatim>\<open>result.Inc()\<close> runs before the nil check; the connection count itself lives in the
  external upstream and is not modelled.
\<close>

definition createProxyHandler :: "Upstream \<Rightarrow> Server \<Rightarrow> CodContext \<Rightarrow> URL outcome" where
  "createProxyHandler us server c =
     (let policy = Policy_u us;
          result =
            (if policy = policyFirst then Inr (PolicyFirst server)
             else if policy = policyRandom then Inr (PolicyRandom server)
             else if policy = policyRoundRobin then Inr (PolicyRoundRobin server)
             else if policy = policyLeastconn then
               (case PolicyLeastconn server of
                  None \<Rightarrow> Inl NilPointerDereference
                | Some r \<Rightarrow> Inr (Some r))
             else if policy = policyIPHash then
               Inr (GetAvailableUpstream server (hash (RealIP_c c)))
             else Inr (GetAvailableUpstream server (defaultIndex policy c)))
      in case result of
           Inl p \<Rightarrow> Panic p
         | Inr None \<Rightarrow> errNoAvailableUpstream
         | Inr (Some url) \<Rightarrow> Ok url)"

text \<open>\<^verbatim>\<open>Upstream.Match\<close>: both loops leave at the first hit; hosts are compared for equality.\<close>

fun find_host :: "string \<Rightarrow> string list \<Rightarrow> bool" where
  "find_host currentHost [] = False"
| "find_host currentHost (host # rest) =
     (if currentHost = host then True else find_host currentHost rest)"

fun find_prefix :: "string \<Rightarrow> string list \<Rightarrow> bool" where
  "find_prefix url [] = False"
| "find_prefix url (pfx # rest) =
     (if HasPrefix url pfx then True else find_prefix url rest)"

definition Match_u :: "Upstream \<Rightarrow> CodContext \<Rightarrow> bool" where
  "Match_u us c =
     (let hosts = Hosts_u us
      in if length hosts \<noteq> 0 \<and> \<not> find_host (Host_c c) hosts then False
         else (let prefixs = Prefixs_u us
               in if length prefixs \<noteq> 0 \<and> \<not> find_prefix (RequestURI_c c) prefixs then False
                  else True))"

section \<open>The properties, in the words of the specification\<close>

text \<open>The live backends are among the configured ones.\<close>

definition live_subset :: "Director \<Rightarrow> bool" where
  "live_subset d = (set (availableBackends d) \<subseteq> set (Backends d))"

text \<open>
  Matching: with neither hosts nor prefixes everything matches; configured hosts need
  one pattern that the host matches under \<open>search\<close>, configured prefixes need one
  that the path starts with, and both conditions hold together.
\<close>

definition spec_Match ::
  "(string \<Rightarrow> string \<Rightarrow> bool) \<Rightarrow> string list \<Rightarrow> string list \<Rightarrow> string \<Rightarrow> string \<Rightarrow> bool" where
  "spec_Match search hosts pfxs host path =
     (if hosts = [] \<and> pfxs = [] then True
      else (hosts = [] \<or> (\<exists>pattern \<in> set hosts. search pattern host))
         \<and> (pfxs = [] \<or> (\<exists>p \<in> set pfxs. prefix p path)))"

text \<open>
  A regular expression made of literal characters only is found by a search exactly
  where it occurs in the text.
\<close>

definition literal_search :: "string \<Rightarrow> string \<Rightarrow> bool" where
  "literal_search pattern text = sublist pattern text"

text \<open>Priority: 8, minus 4 with a host pattern, minus 2 with a prefix.\<close>

definition spec_priority :: "string list \<Rightarrow> string list \<Rightarrow> int" where
  "spec_priority hosts pfxs =
     8 - (if hosts \<noteq> [] then 4 else 0) - (if pfxs \<noteq> [] then 2 else 0)"

text \<open>A probe attempt succeeds when its response carries a status code in [200, 400).\<close>

definition attempt_ok :: "get_result \<Rightarrow> bool" where
  "attempt_ok r = (case r of Inl err \<Rightarrow> False | Inr statusCode \<Rightarrow> 200 \<le> statusCode \<and> statusCode < 400)"

text \<open>
  Modelled from the spec: \<^verbatim>\<open>GetAvailableUpstream\<close> of the external server is not
  among the sources; the selection procedure of the specification reduces the index
  modulo the number of live backends and fails on an empty live set.
\<close>

definition spec_GetAvailableUpstream :: "URL list \<Rightarrow> uint32 \<Rightarrow> URL option" where
  "spec_GetAvailableUpstream live index =
     (if live = [] then None else Some (live ! (unat index mod length live)))"




section \<open>Selection: results\<close>

lemma selectFuncMap_roundRobin: "selectFuncMap ''roundRobin'' = Some selectRoundRobin"
  by (simp add: selectFuncMap_def AddSelect_def)

lemma selectFuncMap_dom:
  "dom selectFuncMap = {''first'', ''random'', ''roundRobin'', ''ipHash''}"
  by (auto simp add: selectFuncMap_def AddSelect_def split: if_splits)

lemma Select_empty:
  assumes "selectFuncMap (Policy d) \<noteq> None" and "availableBackends d = []"
  shows "fst (Select c d) = Inl IntegerDivideByZero"
  using assms by (auto simp add: Select_def GetAvailableBackends_def Let_def split: prod.splits)

lemma Select_roundRobin:
  assumes "Policy d = ''roundRobin''" and "availableBackends d \<noteq> []"
    and "length (availableBackends d) < 2 ^ 32" and "unat (roubin d) + 1 < 2 ^ 32"
  shows "Select c d =
    (Inr (availableBackends d ! ((unat (roubin d) + 1) mod length (availableBackends d))),
     d\<lparr>roubin := roubin d + 1\<rparr>)"
proof -
  let ?n = "length (availableBackends d)"
  have n: "unat (of_nat ?n :: uint32) = ?n"
    using assms(3) by (simp add: unat_of_nat)
  have nz: "(of_nat ?n :: uint32) \<noteq> 0"
    using n assms(2) by (metis length_0_conv unat_0)
  have r: "unat (roubin d + 1) = unat (roubin d) + 1"
    using assms(4) by (simp add: unat_word_ariths)
  have "unat ((roubin d + 1) mod (of_nat ?n :: uint32)) = (unat (roubin d) + 1) mod ?n"
    by (simp add: unat_mod n r)
  then show ?thesis
    using nz by (simp add: Select_def assms(1) selectFuncMap_roundRobin
        GetAvailableBackends_def selectRoundRobin_def Let_def)
qed

lemma select_many_roundRobin:
  assumes "Policy d = ''roundRobin''" and "availableBackends d = bs" and "bs \<noteq> []"
    and "length bs < 2 ^ 32" and "unat (roubin d) + n < 2 ^ 32"
  shows "select_many n c d =
    (map (\<lambda>k. Inr (bs ! ((unat (roubin d) + Suc k) mod length bs))) [0..<n],
     d\<lparr>roubin := roubin d + of_nat n\<rparr>)"
  using assms
proof (induction n arbitrary: d)
  case 0
  then show ?case by simp
next
  case (Suc n)
  let ?d = "d\<lparr>roubin := roubin d + 1\<rparr>"
  have step: "Select c d = (Inr (bs ! ((unat (roubin d) + 1) mod length bs)), ?d)"
    using Select_roundRobin [of d c] Suc.prems by simp
  have r: "unat (roubin d + 1) = unat (roubin d) + 1"
    using Suc.prems(5) by (simp add: unat_word_ariths)
  have ih: "select_many n c ?d =
    (map (\<lambda>k. Inr (bs ! ((unat (roubin ?d) + Suc k) mod length bs))) [0..<n],
     ?d\<lparr>roubin := roubin ?d + of_nat n\<rparr>)"
    using Suc.prems r by (intro Suc.IH) simp_all
  have shift: "[0..<Suc n] = 0 # map Suc [0..<n]"
    by (simp add: upt_conv_Cons map_Suc_upt del: upt_Suc)
  have "select_many (Suc n) c d =
    (Inr (bs ! ((unat (roubin d) + 1) mod length bs)) #
       map (\<lambda>k. Inr (bs ! ((unat (roubin ?d) + Suc k) mod length bs))) [0..<n],
     ?d\<lparr>roubin := roubin ?d + of_nat n\<rparr>)"
    by (simp add: step ih del: upt_Suc)
  also have "\<dots> =
    (map (\<lambda>k. Inr (bs ! ((unat (roubin d) + Suc k) mod length bs))) [0..<Suc n],
     d\<lparr>roubin := roubin d + of_nat (Suc n)\<rparr>)"
    unfolding shift by (simp add: r comp_def add.assoc del: upt_Suc)
  finally show ?case .
qed

lemma Select_unknown: "selectFuncMap (Policy d) = None \<Longrightarrow> Select c d = (Inr '''', d)"
  by (simp add: Select_def)

lemma cycle_indices:
  assumes "0 < n"
  shows "map (\<lambda>k. Suc k mod n) [0..<n] = [1..<n] @ [0]"
proof (rule nth_equalityI)
  show "length (map (\<lambda>k. Suc k mod n) [0..<n]) = length ([1..<n] @ [0])"
    using assms by simp
next
  fix i assume "i < length (map (\<lambda>k. Suc k mod n) [0..<n])"
  then have i: "i < n" by simp
  show "map (\<lambda>k. Suc k mod n) [0..<n] ! i = ([1..<n] @ [0]) ! i"
  proof (cases "Suc i < n")
    case True
    then have "i < n - 1" by simp
    then show ?thesis using i by (simp add: nth_append)
  next
    case False
    with i have "Suc i = n" by simp
    then show ?thesis using i by (auto simp add: nth_append)
  qed
qed

lemma rotate_indices:
  "map (\<lambda>k. bs ! ((m + k) mod length bs)) [0..<length bs] = rotate m bs"
  by (rule nth_equalityI) (simp_all add: nth_rotate)

lemma second_round:
  "map (\<lambda>k. g ((m + k) mod n)) [0..<2 * n] =
     map (\<lambda>k. g ((m + k) mod n)) [0..<n] @ map (\<lambda>k. g ((m + k) mod n)) [0..<n]"
proof -
  have "[0..<n + n] = [0..<n] @ [n..<n + n]"
    by (rule upt_add_eq_append) simp
  moreover have "[n..<n + n] = map (\<lambda>k. k + n) [0..<n]"
    by (simp only: map_add_upt add_0)
  ultimately have "[0..<2 * n] = [0..<n] @ map (\<lambda>k. k + n) [0..<n]"
    by (simp only: mult_2)
  then have "map (\<lambda>k. g ((m + k) mod n)) [0..<2 * n] =
      map (\<lambda>k. g ((m + k) mod n)) [0..<n] @ map (\<lambda>k. g ((m + (k + n)) mod n)) [0..<n]"
    by (simp add: comp_def)
  also have "map (\<lambda>k. g ((m + (k + n)) mod n)) [0..<n] = map (\<lambda>k. g ((m + k) mod n)) [0..<n]"
    by (rule map_cong) (simp_all flip: add.assoc)
  finally show ?thesis .
qed

text \<open>
  C1. Selecting from an empty live set should give the no-available-backend error for
  every policy. In \<^verbatim>\<open>Director.Select\<close> there is no emptiness check: for each of the
  four registered policies the remainder \<^verbatim>\<open>index % count\<close> is taken with
  \<^verbatim>\<open>count = 0\<close> and the call panics with an integer division by zero.
\<close>

theorem Select_empty_live_set_panics:
  "fst (Select c (d\<lparr>Policy := ''first'', availableBackends := []\<rparr>)) = Inl IntegerDivideByZero
   \<and> fst (Select c (d\<lparr>Policy := ''random'', availableBackends := []\<rparr>)) = Inl IntegerDivideByZero
   \<and> fst (Select c (d\<lparr>Policy := ''roundRobin'', availableBackends := []\<rparr>)) = Inl IntegerDivideByZero
   \<and> fst (Select c (d\<lparr>Policy := ''ipHash'', availableBackends := []\<rparr>)) = Inl IntegerDivideByZero"
  by (simp add: Select_empty selectFuncMap_def AddSelect_def)

lemma Select_roundRobin_any:
  assumes "Policy d = ''roundRobin''" and "availableBackends d \<noteq> []"
    and "length (availableBackends d) < 2 ^ 32"
  shows "Select c d =
    (Inr (availableBackends d ! (unat (roubin d + 1) mod length (availableBackends d))),
     d\<lparr>roubin := roubin d + 1\<rparr>)"
proof -
  let ?n = "length (availableBackends d)"
  have n: "unat (of_nat ?n :: uint32) = ?n"
    using assms(3) by (simp add: unat_of_nat)
  have nz: "(of_nat ?n :: uint32) \<noteq> 0"
    using n assms(2) by (metis length_0_conv unat_0)
  have "unat ((roubin d + 1) mod (of_nat ?n :: uint32)) = unat (roubin d + 1) mod ?n"
    by (simp add: unat_mod n)
  then show ?thesis
    using nz by (simp add: Select_def assms(1) selectFuncMap_roundRobin
        GetAvailableBackends_def selectRoundRobin_def Let_def)
qed

lemma select_many_roundRobin_any:
  assumes "Policy d = ''roundRobin''" and "availableBackends d = bs" and "bs \<noteq> []"
    and "length bs < 2 ^ 32"
  shows "select_many n c d =
    (map (\<lambda>k. Inr (bs ! (unat (roubin d + of_nat (Suc k)) mod length bs))) [0..<n],
     d\<lparr>roubin := roubin d + of_nat n\<rparr>)"
  using assms
proof (induction n arbitrary: d)
  case 0
  then show ?case by simp
next
  case (Suc n)
  let ?d = "d\<lparr>roubin := roubin d + 1\<rparr>"
  have step: "Select c d = (Inr (bs ! (unat (roubin d + 1) mod length bs)), ?d)"
    using Select_roundRobin_any [of d c] Suc.prems by simp
  have ih: "select_many n c ?d =
    (map (\<lambda>k. Inr (bs ! (unat (roubin ?d + of_nat (Suc k)) mod length bs))) [0..<n],
     ?d\<lparr>roubin := roubin ?d + of_nat n\<rparr>)"
    using Suc.prems by (intro Suc.IH) simp_all
  have shift: "[0..<Suc n] = 0 # map Suc [0..<n]"
    by (simp add: upt_conv_Cons map_Suc_upt del: upt_Suc)
  have "select_many (Suc n) c d =
    (Inr (bs ! (unat (roubin d + 1) mod length bs)) #
       map (\<lambda>k. Inr (bs ! (unat (roubin ?d + of_nat (Suc k)) mod length bs))) [0..<n],
     ?d\<lparr>roubin := roubin ?d + of_nat n\<rparr>)"
    by (simp add: step ih del: upt_Suc)
  also have "\<dots> =
    (map (\<lambda>k. Inr (bs ! (unat (roubin d + of_nat (Suc k)) mod length bs))) [0..<Suc n],
     d\<lparr>roubin := roubin d + of_nat (Suc n)\<rparr>)"
    unfolding shift by (simp add: comp_def add.assoc del: upt_Suc)
  finally show ?case .
qed

text \<open>
  C4, as the code has it. Round robin over a live list \<open>bs\<close> of length \<open>N\<close>: the
  \<open>k\<close>-th selection returns the entry at the 32-bit counter after \<open>k\<close> increments,
  reduced modulo \<open>N\<close>. As long as the counter does not pass \<open>2 ^ 32\<close> during the
  selections, \<open>N\<close> consecutive selections return a rotation of the live list: every
  index once, each the successor of the one before modulo \<open>N\<close>; \<open>2 * N\<close>
  selections return the same rotation twice. With a fresh counter the first increment
  yields 1 and the indices are \<open>1, 2, \<dots>, N - 1, 0\<close>; with the live list
  \<open>[s1, s2, s3]\<close> three selections return \<open>s2, s3, s1\<close>.
\<close>

theorem roundRobin_cycle:
  assumes "Policy d = ''roundRobin''" and "availableBackends d = bs" and "bs \<noteq> []"
    and "length bs < 2 ^ 32"
  shows "fst (select_many n c d) =
        map (\<lambda>k. Inr (bs ! (unat (roubin d + of_nat (Suc k)) mod length bs))) [0..<n]
    \<and> (unat (roubin d) + length bs < 2 ^ 32 \<longrightarrow>
        fst (select_many (length bs) c d) = map Inr (rotate (unat (roubin d) + 1) bs))
    \<and> (unat (roubin d) + 2 * length bs < 2 ^ 32 \<longrightarrow>
        fst (select_many (2 * length bs) c d) =
          map Inr (rotate (unat (roubin d) + 1) bs @ rotate (unat (roubin d) + 1) bs))
    \<and> (roubin d = 0 \<longrightarrow>
        fst (select_many (length bs) c d) = map (\<lambda>i. Inr (bs ! i)) ([1..<length bs] @ [0]))
    \<and> (roubin d = 0 \<and> bs = [s1, s2, s3] \<longrightarrow>
        fst (select_many 3 c d) = [Inr s2, Inr s3, Inr s1])"
proof -
  let ?N = "length bs"
  let ?m = "unat (roubin d) + 1"
  have len: "0 < ?N"
    using assms(3) by simp
  have any: "fst (select_many n c d) =
        map (\<lambda>k. Inr (bs ! (unat (roubin d + of_nat (Suc k)) mod length bs))) [0..<n]"
    using select_many_roundRobin_any [OF assms, of n c] by simp
  have run: "fst (select_many n c d) = map (\<lambda>k. Inr (bs ! ((?m + k) mod ?N))) [0..<n]"
    if "unat (roubin d) + n < 2 ^ 32" for n
    using select_many_roundRobin [OF assms that, of c] by simp
  have e: "map (\<lambda>k. Inr (bs ! ((?m + k) mod ?N))) [0..<?N] = map Inr (rotate ?m bs)"
  proof -
    have "map Inr (rotate ?m bs) = map Inr (map (\<lambda>k. bs ! ((?m + k) mod ?N)) [0..<?N])"
      by (simp only: rotate_indices)
    also have "\<dots> = map (\<lambda>k. Inr (bs ! ((?m + k) mod ?N))) [0..<?N]"
      by (simp only: map_map comp_def)
    finally show ?thesis by (rule sym)
  qed
  have once: "fst (select_many ?N c d) = map Inr (rotate ?m bs)"
    if w: "unat (roubin d) + ?N < 2 ^ 32"
    by (simp only: run [OF w] e)
  have twice: "fst (select_many (2 * ?N) c d) = map Inr (rotate ?m bs @ rotate ?m bs)"
    if w: "unat (roubin d) + 2 * ?N < 2 ^ 32"
    by (simp only: run [OF w] second_round [of "\<lambda>i. Inr (bs ! i)" ?m ?N] e map_append)
  have fresh: "fst (select_many ?N c d) = map (\<lambda>i. Inr (bs ! i)) ([1..<?N] @ [0])"
    if "roubin d = 0"
  proof -
    have "unat (roubin d) + ?N < 2 ^ 32"
      using that assms(4) by simp
    from run [OF this]
    have "fst (select_many ?N c d) = map (\<lambda>i. Inr (bs ! i)) (map (\<lambda>k. Suc k mod ?N) [0..<?N])"
      using that by (simp add: comp_def)
    then show ?thesis
      using cycle_indices [OF len] by simp
  qed
  have three: "fst (select_many 3 c d) = [Inr s2, Inr s3, Inr s1]"
    if "roubin d = 0 \<and> bs = [s1, s2, s3]"
  proof -
    have l: "?N = 3"
      using that by simp
    have u: "[1..<3] = [1, 2::nat]"
      by (simp add: upt_conv_Cons)
    from that have z: "roubin d = 0" and b: "bs = [s1, s2, s3]"
      by simp_all
    have "fst (select_many ?N c d) = map (\<lambda>i. Inr (bs ! i)) ([1..<?N] @ [0])"
      using z by (rule fresh)
    then have "fst (select_many 3 c d) = map (\<lambda>i. Inr (bs ! i)) ([1..<3] @ [0])"
      by (simp only: l)
    then show ?thesis
      unfolding u b by simp
  qed
  from any once twice fresh three show ?thesis by blast
qed

text \<open>
  The group with the live backends \<open>s1, s2, s3\<close> and a fresh counter: three
  selections give \<open>s2, s3, s1\<close>, six give that cycle twice.
\<close>

theorem roundRobin_cycle_witness:
  "fst (select_many 3 \<lparr>RealIP = ''10.0.0.1'', randUint32 = 7\<rparr>
     \<lparr>Name = ''api'', Policy = ''roundRobin'', Ping = ''/ping'',
      Backends = [''s1'', ''s2'', ''s3''], availableBackends = [''s1'', ''s2'', ''s3''],
      Hosts = [], Prefixs = [], Priority = 8, roubin = 0\<rparr>) = [Inr ''s2'', Inr ''s3'', Inr ''s1'']
   \<and> fst (select_many 6 \<lparr>RealIP = ''10.0.0.1'', randUint32 = 7\<rparr>
     \<lparr>Name = ''api'', Policy = ''roundRobin'', Ping = ''/ping'',
      Backends = [''s1'', ''s2'', ''s3''], availableBackends = [''s1'', ''s2'', ''s3''],
      Hosts = [], Prefixs = [], Priority = 8, roubin = 0\<rparr>) =
     [Inr ''s2'', Inr ''s3'', Inr ''s1'', Inr ''s2'', Inr ''s3'', Inr ''s1'']"
proof -
  let ?c = "\<lparr>RealIP = ''10.0.0.1'', randUint32 = 7\<rparr>"
  let ?bs = "[''s1'', ''s2'', ''s3'']"
  let ?d = "\<lparr>Name = ''api'', Policy = ''roundRobin'', Ping = ''/ping'',
      Backends = ?bs, availableBackends = ?bs,
      Hosts = [], Prefixs = [], Priority = 8, roubin = 0\<rparr>"
  have h: "Policy ?d = ''roundRobin''" "availableBackends ?d = ?bs"
    "?bs \<noteq> []" "length ?bs < 2 ^ 32"
    by simp_all
  note t = roundRobin_cycle [OF h, of 0 ?c "''s1''" "''s2''" "''s3''"]
  have six: "2 * length ?bs = 6"
    by simp
  have r: "rotate (unat (roubin ?d) + 1) ?bs = [''s2'', ''s3'', ''s1'']"
    by simp
  have f: "roubin ?d = 0 \<and> ?bs = [''s1'', ''s2'', ''s3'']"
    by simp
  have w: "unat (roubin ?d) + 2 * length ?bs < 2 ^ 32"
    by simp
  from t f have a: "fst (select_many 3 ?c ?d) = [Inr ''s2'', Inr ''s3'', Inr ''s1'']"
    by blast
  from t w have "fst (select_many (2 * length ?bs) ?c ?d) =
      map Inr (rotate (unat (roubin ?d) + 1) ?bs @ rotate (unat (roubin ?d) + 1) ?bs)"
    by blast
  then have b: "fst (select_many 6 ?c ?d) =
      [Inr ''s2'', Inr ''s3'', Inr ''s1'', Inr ''s2'', Inr ''s3'', Inr ''s1'']"
    unfolding six r by simp
  from a b show ?thesis
    by (rule conjI)
qed

text \<open>
  C4, as stated, promises the cycle for any \<open>N\<close> consecutive selections. The counter
  is 32 bits wide and 3 does not divide \<open>2 ^ 32\<close>: from the counter 4294967294 the
  three live backends \<open>s1, s2, s3\<close> are selected as \<open>s1, s1, s2\<close>, so \<open>s1\<close>
  is visited twice and \<open>s3\<close> not at all, and six selections do not repeat a cycle.
\<close>

theorem roundRobin_wrap_breaks_cycle:
  "fst (select_many 3 \<lparr>RealIP = ''10.0.0.1'', randUint32 = 7\<rparr>
     \<lparr>Name = ''api'', Policy = ''roundRobin'', Ping = ''/ping'',
      Backends = [''s1'', ''s2'', ''s3''], availableBackends = [''s1'', ''s2'', ''s3''],
      Hosts = [], Prefixs = [], Priority = 8, roubin = 4294967294\<rparr>)
     = [Inr ''s1'', Inr ''s1'', Inr ''s2'']
   \<and> fst (select_many 6 \<lparr>RealIP = ''10.0.0.1'', randUint32 = 7\<rparr>
     \<lparr>Name = ''api'', Policy = ''roundRobin'', Ping = ''/ping'',
      Backends = [''s1'', ''s2'', ''s3''], availableBackends = [''s1'', ''s2'', ''s3''],
      Hosts = [], Prefixs = [], Priority = 8, roubin = 4294967294\<rparr>)
     = [Inr ''s1'', Inr ''s1'', Inr ''s2'', Inr ''s3'', Inr ''s1'', Inr ''s2'']"
proof -
  have step: "Select c \<lparr>Name = n, Policy = ''roundRobin'', Ping = p,
      Backends = bs, availableBackends = [''s1'', ''s2'', ''s3''],
      Hosts = hs, Prefixs = ps, Priority = pr, roubin = r\<rparr>
    = (Inr ([''s1'', ''s2'', ''s3''] ! unat ((r + 1) mod 3)),
       \<lparr>Name = n, Policy = ''roundRobin'', Ping = p,
      Backends = bs, availableBackends = [''s1'', ''s2'', ''s3''],
      Hosts = hs, Prefixs = ps, Priority = pr, roubin = r + 1\<rparr>)" for c n p bs hs ps pr r
    by (simp add: Select_def selectFuncMap_roundRobin selectRoundRobin_def
        GetAvailableBackends_def Let_def)
  have m: "unat ((4294967295 :: uint32) mod 3) = 0" "unat ((0 :: uint32) mod 3) = 0"
    "unat ((1 :: uint32) mod 3) = 1" "unat ((2 :: uint32) mod 3) = 2"
    "unat ((3 :: uint32) mod 3) = 0" "unat ((4 :: uint32) mod 3) = 1"
    by simp_all
  have three: "(3::nat) = Suc (Suc (Suc 0))" and six: "(6::nat) = Suc (Suc (Suc (Suc (Suc (Suc 0)))))"
    by simp_all
  show ?thesis
    unfolding three six select_many.simps step Let_def prod.case
    by (simp add: m)
qed

section \<open>List helpers: results\<close>

lemma FindStringIndex_range: "FindStringIndex xs s = -1 \<or> 0 \<le> FindStringIndex xs s"
  by (induction xs) (auto simp add: Let_def)

lemma FindStringIndex_found: "FindStringIndex xs s \<noteq> -1 \<longleftrightarrow> s \<in> set xs"
proof (induction xs)
  case Nil
  then show ?case by simp
next
  case (Cons x xs)
  have "FindStringIndex xs s = -1 \<or> 0 \<le> FindStringIndex xs s"
    by (rule FindStringIndex_range)
  then show ?case
    using Cons.IH by (auto simp add: Let_def)
qed

lemma IncludesString_iff: "IncludesString xs s \<longleftrightarrow> s \<in> set xs"
  by (simp add: IncludesString_def FindStringIndex_found)

lemma cut_at_found: "s \<in> set xs \<Longrightarrow> cut_at xs (FindStringIndex xs s) = remove1 s xs"
proof (induction xs)
  case Nil
  then show ?case by simp
next
  case (Cons x xs)
  show ?case
  proof (cases "x = s")
    case True
    then show ?thesis by (simp add: cut_at_def)
  next
    case False
    with Cons.prems have mem: "s \<in> set xs" by simp
    let ?i = "FindStringIndex xs s"
    have nonneg: "0 \<le> ?i"
      using FindStringIndex_range [of xs s] FindStringIndex_found [of xs s] mem by auto
    then have n1: "nat (1 + ?i) = Suc (nat ?i)" and n2: "nat (2 + ?i) = Suc (Suc (nat ?i))"
      and n3: "nat (?i + 1) = Suc (nat ?i)"
      by simp_all
    have "?i \<noteq> -1"
      using nonneg by simp
    then have "cut_at (x # xs) (FindStringIndex (x # xs) s) = x # cut_at xs ?i"
      using False by (simp add: cut_at_def Let_def n1 n2 n3)
    then show ?thesis
      using False Cons.IH [OF mem] by simp
  qed
qed

section \<open>The live list and the configured list\<close>

lemma AddAvailableBackend_live:
  "availableBackends (AddAvailableBackend d b) =
     (if b \<in> set (availableBackends d) then availableBackends d else availableBackends d @ [b])"
  by (simp add: AddAvailableBackend_def IncludesString_iff Let_def)

lemma RemoveAvailableBackend_live:
  "availableBackends (RemoveAvailableBackend d b) = remove1 b (availableBackends d)"
  by (simp add: RemoveAvailableBackend_def FindStringIndex_found cut_at_found Let_def remove1_idem)

lemma AddAvailableBackend_Backends [simp]: "Backends (AddAvailableBackend d b) = Backends d"
  by (simp add: AddAvailableBackend_def Let_def)

lemma RemoveAvailableBackend_Backends [simp]: "Backends (RemoveAvailableBackend d b) = Backends d"
  by (simp add: RemoveAvailableBackend_def Let_def)

lemma AddAvailableBackend_Ping [simp]: "Ping (AddAvailableBackend d b) = Ping d"
  by (simp add: AddAvailableBackend_def Let_def)

lemma RemoveAvailableBackend_Ping [simp]: "Ping (RemoveAvailableBackend d b) = Ping d"
  by (simp add: RemoveAvailableBackend_def Let_def)

lemma live_subset_AddAvailableBackend:
  "live_subset d \<Longrightarrow> b \<in> set (Backends d) \<Longrightarrow> live_subset (AddAvailableBackend d b)"
  by (auto simp add: live_subset_def AddAvailableBackend_live)

lemma live_subset_RemoveAvailableBackend:
  "live_subset d \<Longrightarrow> live_subset (RemoveAvailableBackend d b)"
  using set_remove1_subset [of b "availableBackends d"]
  by (auto simp add: live_subset_def RemoveAvailableBackend_live)

lemma live_subset_AddBackend: "live_subset d \<Longrightarrow> live_subset (AddBackend d b)"
  by (auto simp add: live_subset_def AddBackend_def Let_def)

lemma HealthCheck_loop:
  assumes "live_subset d" and "set bs \<subseteq> set (Backends d)"
  shows "live_subset
     (foldl (\<lambda>d backend.
              (let url = backend @ Ping d; healthy = doCheck transport url
               in if healthy then AddAvailableBackend d backend
                  else RemoveAvailableBackend d backend)) d bs)"
  using assms
proof (induction bs arbitrary: d)
  case Nil
  then show ?case by simp
next
  case (Cons b bs)
  let ?d = "if doCheck transport (b @ Ping d) then AddAvailableBackend d b
            else RemoveAvailableBackend d b"
  have "live_subset ?d"
    using Cons.prems by (simp add: live_subset_AddAvailableBackend live_subset_RemoveAvailableBackend)
  moreover have "set bs \<subseteq> set (Backends ?d)"
    using Cons.prems by simp
  ultimately show ?case
    using Cons.IH [of ?d] by (simp add: Let_def)
qed

lemma live_subset_HealthCheck: "live_subset d \<Longrightarrow> live_subset (HealthCheck transport d)"
  unfolding HealthCheck_def by (rule HealthCheck_loop) simp_all

lemma RemoveBackend_Backends: "Backends (RemoveBackend d b) = remove1 b (Backends d)"
  by (simp add: RemoveBackend_def FindStringIndex_found cut_at_found Let_def remove1_idem)

lemma RemoveBackend_live [simp]: "availableBackends (RemoveBackend d b) = availableBackends d"
  by (simp add: RemoveBackend_def Let_def)

text \<open>
  C2. The live backends should stay among the configured ones under every operation.
  \<^verbatim>\<open>AddAvailableBackend\<close> of a configured address, \<^verbatim>\<open>RemoveAvailableBackend\<close>,
  \<^verbatim>\<open>AddBackend\<close> and \<^verbatim>\<open>HealthCheck\<close> keep it so (the lemmas above).
  \<^verbatim>\<open>RemoveBackend\<close> takes the address out of the configured list only: on a group
  whose one backend is live, the backend is still in the live list afterwards, and the
  next health check, which probes configured backends only, leaves it there.
\<close>

theorem RemoveBackend_leaves_live_entry:
  "live_subset (d\<lparr>Backends := [''http://a''], availableBackends := [''http://a'']\<rparr>)
   \<and> \<not> live_subset
        (RemoveBackend (d\<lparr>Backends := [''http://a''], availableBackends := [''http://a'']\<rparr>) ''http://a'')
   \<and> availableBackends
        (HealthCheck transport
          (RemoveBackend (d\<lparr>Backends := [''http://a''], availableBackends := [''http://a'']\<rparr>)
             ''http://a'')) = [''http://a'']"
  by (simp add: live_subset_def RemoveBackend_Backends HealthCheck_def)

section \<open>Priority\<close>




















section \<open>Matching: results\<close>

lemma HasPrefix_iff: "HasPrefix s p \<longleftrightarrow> prefix p s"
proof
  assume "HasPrefix s p"
  then have "s = p @ drop (length p) s"
    by (metis HasPrefix_def append_take_drop_id)
  then show "prefix p s"
    by (metis prefixI)
next
  assume "prefix p s"
  then obtain zs where "s = p @ zs"
    by (auto simp add: prefix_def)
  then show "HasPrefix s p"
    by (simp add: HasPrefix_def)
qed

lemma match_hosts_eq:
  assumes "\<forall>item \<in> set hosts. compile item = Some (search item)"
  shows "match_hosts compile host hosts m = Inr (m \<or> (\<exists>item \<in> set hosts. search item host))"
  using assms by (induction hosts arbitrary: m) auto

lemma match_prefixs_eq:
  "match_prefixs uri prefixs m = (m \<or> (\<exists>item \<in> set prefixs. prefix item uri))"
  by (induction prefixs arbitrary: m) (auto simp add: HasPrefix_iff)

lemma find_host_eq: "find_host currentHost hosts \<longleftrightarrow> currentHost \<in> set hosts"
  by (induction hosts) auto

lemma find_prefix_eq: "find_prefix url prefixs \<longleftrightarrow> (\<exists>item \<in> set prefixs. prefix item url)"
  by (induction prefixs) (auto simp add: HasPrefix_iff)

lemma Match_eq:
  assumes "\<forall>item \<in> set (Hosts d). compile item = Some (search item)"
  shows "Match compile d host uri = Inr (spec_Match search (Hosts d) (Prefixs d) host uri)"
  using match_hosts_eq [OF assms, of host False]
  by (auto simp add: Match_def spec_Match_def match_prefixs_eq Let_def)

lemma Match_u_eq:
  "Match_u us c =
     spec_Match (\<lambda>pattern host. host = pattern) (Hosts_u us) (Prefixs_u us) (Host_c c) (RequestURI_c c)"
  by (auto simp add: Match_u_def spec_Match_def find_host_eq find_prefix_eq Let_def)

section \<open>Health probe: results\<close>

lemma attempt_value:
  "(case r of Inl err \<Rightarrow> 0 | Inr statusCode \<Rightarrow> if statusCode \<ge> 200 \<and> statusCode < 400 then 1 else 0)
     = (if attempt_ok r then (1::int) else 0)"
  by (cases r) (simp_all add: attempt_ok_def)

lemma attempts_step:
  "i < 5 \<Longrightarrow> j = i + 1 \<Longrightarrow>
   attempts get i = (if attempt_ok (get i) then 1 else 0) # attempts get j"
  by (subst attempts.simps) (simp add: attempt_value)

lemma attempts_end: "attempts get 5 = []"
  by (subst attempts.simps) simp

lemma attempts_values:
  "attempts get 0 = map (\<lambda>i. if attempt_ok (get i) then 1 else 0) [0, 1, 2, 3, 4]"
proof -
  have s0: "attempts get 0 = (if attempt_ok (get 0) then 1 else 0) # attempts get 1"
    by (rule attempts_step) simp_all
  have s1: "attempts get 1 = (if attempt_ok (get 1) then 1 else 0) # attempts get 2"
    by (rule attempts_step) simp_all
  have s2: "attempts get 2 = (if attempt_ok (get 2) then 1 else 0) # attempts get 3"
    by (rule attempts_step) simp_all
  have s3: "attempts get 3 = (if attempt_ok (get 3) then 1 else 0) # attempts get 4"
    by (rule attempts_step) simp_all
  have s4: "attempts get 4 = (if attempt_ok (get 4) then 1 else 0) # attempts get 5"
    by (rule attempts_step) simp_all
  show ?thesis
    unfolding s0 s1 s2 s3 s4 attempts_end by simp
qed

lemma sum_of_flags:
  "foldl (\<lambda>successCount i. successCount + i) a (map (\<lambda>i. if P i then (1::int) else 0) xs)
     = a + int (length (filter P xs))"
  by (induction xs arbitrary: a) simp_all

section \<open>Upstream: results\<close>

lemma hash_empty: "hash [] = 2166136261"
  by (simp add: hash_def offset32_def)

lemma createUpstreamFromBackend_Policy:
  "Policy_u (createUpstreamFromBackend conv b) =
     (if Policy_b b = [] then policyRoundRobin else Policy_b b)"
  by (simp add: createUpstreamFromBackend_def Let_def split: option.splits)

lemma createUpstreamFromBackend_Priority:
  "Priority_u (createUpstreamFromBackend conv b) = spec_priority (Hosts_b b) (Prefixs_b b)"
  by (simp add: createUpstreamFromBackend_def spec_priority_def Let_def split: option.splits)

lemma handler_default_branch:
  assumes "Policy_u us \<noteq> policyFirst" "Policy_u us \<noteq> policyRandom"
    "Policy_u us \<noteq> policyRoundRobin" "Policy_u us \<noteq> policyLeastconn"
    "Policy_u us \<noteq> policyIPHash"
  shows "createProxyHandler us server c =
    (case GetAvailableUpstream server (defaultIndex (Policy_u us) c) of
       None \<Rightarrow> errNoAvailableUpstream | Some url \<Rightarrow> Ok url)"
  using assms by (simp add: createProxyHandler_def Let_def split: option.splits)

lemma defaultIndex_header:
  "defaultIndex (headerHashPrefix @ key) c = hash (GetRequestHeader c key)"
  by (simp add: defaultIndex_def HasPrefix_def Let_def)

lemma defaultIndex_cookie:
  "defaultIndex (cookieHashPrefix @ key) c =
     (case Cookie_c c key of None \<Rightarrow> 0 | Some v \<Rightarrow> hash v)"
  by (simp add: defaultIndex_def HasPrefix_def Let_def headerHashPrefix_def cookieHashPrefix_def)

lemma defaultIndex_other:
  "\<not> HasPrefix policy headerHashPrefix \<Longrightarrow> \<not> HasPrefix policy cookieHashPrefix \<Longrightarrow>
   defaultIndex policy c = 0"
  by (simp add: defaultIndex_def Let_def)

lemma prefixed_policy_is_default:
  "headerHashPrefix @ key \<notin> {policyFirst, policyRandom, policyRoundRobin, policyLeastconn, policyIPHash}"
  "cookieHashPrefix @ key \<notin> {policyFirst, policyRandom, policyRoundRobin, policyLeastconn, policyIPHash}"
  by (simp_all add: headerHashPrefix_def cookieHashPrefix_def policyFirst_def policyRandom_def
      policyRoundRobin_def policyLeastconn_def policyIPHash_def)

section \<open>Priority, matching, probing and the upstream\<close>







text \<open>
  C3, as the code has it. \<^verbatim>\<open>Director.Match\<close> returns what the specification says,
  with the search of the regular-expression engine, for a director whose host patterns
  all compile (an invalid pattern makes \<^verbatim>\<open>regexp.MustCompile\<close> panic).
  \<^verbatim>\<open>Upstream.Match\<close> follows the same scheme with one difference: a host pattern
  matches only the host equal to it.
\<close>

theorem Match_characterised:
  "((\<forall>item \<in> set (Hosts d). compile item = Some (search item)) \<longrightarrow>
      Match compile d host uri = Inr (spec_Match search (Hosts d) (Prefixs d) host uri))
   \<and> Match_u us c =
       spec_Match (\<lambda>pattern host. host = pattern) (Hosts_u us) (Prefixs_u us)
         (Host_c c) (RequestURI_c c)"
  using Match_eq [of d compile search host uri] Match_u_eq [of us c] by blast

text \<open>
  With the host pattern \<open>api\<close> and the prefix \<open>/v1\<close>, a request for
  \<open>/v1/users\<close> on \<open>api.example.com\<close> matches the director and not the upstream.
\<close>

theorem Match_characterised_witness:
  "Match (\<lambda>item. Some (literal_search item))
     \<lparr>Name = ''api'', Policy = ''roundRobin'', Ping = ''/ping'', Backends = [],
      availableBackends = [], Hosts = [''api''], Prefixs = [''/v1''], Priority = 2, roubin = 0\<rparr>
     ''api.example.com'' ''/v1/users'' = Inr True
   \<and> Match_u
     \<lparr>Policy_u = ''roundRobin'', Priority_u = 2, Name_u = ''api'', Header_u = None,
      RequestHeader_u = None, server_u = \<lparr>Ping_h = ''/ping'', added_h = []\<rparr>,
      Hosts_u = [''api''], Prefixs_u = [''/v1''], Rewrites_u = []\<rparr>
     \<lparr>RealIP_c = ''10.0.0.1'', Host_c = ''api.example.com'', RequestURI_c = ''/v1/users'',
      RequestHeader_c = Map.empty, Cookie_c = Map.empty\<rparr> = False"
proof -
  let ?d = "\<lparr>Name = ''api'', Policy = ''roundRobin'', Ping = ''/ping'', Backends = [],
      availableBackends = [], Hosts = [''api''], Prefixs = [''/v1''], Priority = 2, roubin = 0\<rparr>"
  let ?us = "\<lparr>Policy_u = ''roundRobin'', Priority_u = 2, Name_u = ''api'', Header_u = None,
      RequestHeader_u = None, server_u = \<lparr>Ping_h = ''/ping'', added_h = []\<rparr>,
      Hosts_u = [''api''], Prefixs_u = [''/v1''], Rewrites_u = []\<rparr>"
  let ?c = "\<lparr>RealIP_c = ''10.0.0.1'', Host_c = ''api.example.com'', RequestURI_c = ''/v1/users'',
      RequestHeader_c = Map.empty, Cookie_c = Map.empty\<rparr>"
  let ?compile = "\<lambda>item. Some (literal_search item)"
  have "prefix ''api'' ''api.example.com''"
    by simp
  then have s: "literal_search ''api'' ''api.example.com''"
    unfolding literal_search_def by (rule prefix_imp_sublist)
  have h: "\<forall>item \<in> set (Hosts ?d). ?compile item = Some (literal_search item)"
    by simp
  note t = Match_characterised [of ?d ?compile literal_search "''api.example.com''" "''/v1/users''" ?us ?c]
  from t h have "Match ?compile ?d ''api.example.com'' ''/v1/users'' =
      Inr (spec_Match literal_search (Hosts ?d) (Prefixs ?d) ''api.example.com'' ''/v1/users'')"
    by blast
  then have a: "Match ?compile ?d ''api.example.com'' ''/v1/users'' = Inr True"
    using s by (simp add: spec_Match_def)
  from t have "Match_u ?us ?c =
      spec_Match (\<lambda>pattern host. host = pattern) (Hosts_u ?us) (Prefixs_u ?us) (Host_c ?c) (RequestURI_c ?c)"
    by blast
  then have b: "Match_u ?us ?c = False"
    by (simp add: spec_Match_def)
  from a b show ?thesis
    by (rule conjI)
qed

text \<open>
  C3, as stated, asks for a regular-expression search on the host. The pattern
  \<open>api\<close> is found in \<open>api.example.com\<close> by a search, and \<^verbatim>\<open>Upstream.Match\<close>
  rejects that host.
\<close>

theorem Match_u_not_search:
  "Match_u
     \<lparr>Policy_u = ''roundRobin'', Priority_u = 4, Name_u = ''api'', Header_u = None,
      RequestHeader_u = None, server_u = \<lparr>Ping_h = ''/ping'', added_h = []\<rparr>,
      Hosts_u = [''api''], Prefixs_u = [], Rewrites_u = []\<rparr>
     \<lparr>RealIP_c = ''10.0.0.1'', Host_c = ''api.example.com'', RequestURI_c = ''/'',
      RequestHeader_c = Map.empty, Cookie_c = Map.empty\<rparr>
   \<noteq> spec_Match literal_search [''api''] [] ''api.example.com'' ''/''"
proof -
  have "prefix ''api'' ''api.example.com''"
    by simp
  then have "sublist ''api'' ''api.example.com''"
    by (rule prefix_imp_sublist)
  then show ?thesis
    by (simp add: Match_u_def spec_Match_def literal_search_def)
qed

lemma distinct_AddAvailableBackend:
  "distinct (availableBackends d) \<Longrightarrow> distinct (availableBackends (AddAvailableBackend d b))"
  by (simp add: AddAvailableBackend_live)

lemma distinct_RemoveAvailableBackend:
  "distinct (availableBackends d) \<Longrightarrow> distinct (availableBackends (RemoveAvailableBackend d b))"
  by (simp add: RemoveAvailableBackend_live)

lemma HealthCheck_order_Nil: "HealthCheck_order transport [] d = d"
  by (simp add: HealthCheck_order_def)

lemma HealthCheck_order_Cons:
  "HealthCheck_order transport (b # finished) d =
     HealthCheck_order transport finished
       (if doCheck transport (b @ Ping d) then AddAvailableBackend d b
        else RemoveAvailableBackend d b)"
  by (simp add: HealthCheck_order_def Let_def)

lemma HealthCheck_is_order: "HealthCheck transport d = HealthCheck_order transport (Backends d) d"
  by (simp add: HealthCheck_def HealthCheck_order_def)

lemma HealthCheck_order_live:
  assumes "distinct (availableBackends d)"
  shows "distinct (availableBackends (HealthCheck_order transport finished d))
    \<and> Ping (HealthCheck_order transport finished d) = Ping d
    \<and> set (availableBackends (HealthCheck_order transport finished d)) =
        (set (availableBackends d) - {b \<in> set finished. \<not> doCheck transport (b @ Ping d)})
        \<union> {b \<in> set finished. doCheck transport (b @ Ping d)}"
  using assms
proof (induction finished arbitrary: d)
  case Nil
  then show ?case by (simp add: HealthCheck_order_Nil)
next
  case (Cons b finished)
  show ?case
  proof (cases "doCheck transport (b @ Ping d)")
    case True
    let ?d = "AddAvailableBackend d b"
    have dist: "distinct (availableBackends ?d)"
      using Cons.prems by (simp add: AddAvailableBackend_live)
    have live: "set (availableBackends ?d) = insert b (set (availableBackends d))"
      by (auto simp add: AddAvailableBackend_live)
    have run: "HealthCheck_order transport (b # finished) d = HealthCheck_order transport finished ?d"
      using True by (simp add: HealthCheck_order_Cons)
    from Cons.IH [OF dist] show ?thesis
      unfolding run using True live by auto
  next
    case False
    let ?d = "RemoveAvailableBackend d b"
    have dist: "distinct (availableBackends ?d)"
      using Cons.prems by (simp add: RemoveAvailableBackend_live)
    have live: "set (availableBackends ?d) = set (availableBackends d) - {b}"
      using Cons.prems by (simp add: RemoveAvailableBackend_live)
    have run: "HealthCheck_order transport (b # finished) d = HealthCheck_order transport finished ?d"
      using False by (simp add: HealthCheck_order_Cons)
    from Cons.IH [OF dist] show ?thesis
      unfolding run using False live by auto
  qed
qed

lemma HealthCheck_order_marks:
  assumes "distinct (availableBackends d)" and "backend \<in> set finished"
  shows "backend \<in> set (availableBackends (HealthCheck_order transport finished d))
    \<longleftrightarrow> doCheck transport (backend @ Ping d)"
  using HealthCheck_order_live [OF assms(1), of transport finished] assms(2) by auto

lemma HealthCheck_order_others:
  assumes "distinct (availableBackends d)" and "backend \<notin> set finished"
  shows "backend \<in> set (availableBackends (HealthCheck_order transport finished d))
    \<longleftrightarrow> backend \<in> set (availableBackends d)"
  using HealthCheck_order_live [OF assms(1), of transport finished] assms(2) by auto

text \<open>
  C6. One health probe makes five attempts: the channel carries five values, the
  \<open>i\<close>-th is 1 exactly when the \<open>i\<close>-th response came back with a status code in
  [200, 400), and the probe reports healthy exactly when at least three of the five
  attempts succeeded. A check cycle marks by that verdict: on a live list without
  duplicates, a configured backend is in the live list after the cycle exactly when at
  least three of the five attempts on its ping address succeeded, whether it was live
  before or not, and in whatever order the probes finish.
\<close>

theorem doCheck_majority:
  "length (attempts (transport url) 0) = 5
   \<and> attempts (transport url) 0 =
       map (\<lambda>i. if attempt_ok (transport url i) then 1 else 0) [0, 1, 2, 3, 4]
   \<and> doCheck transport url =
       (3 \<le> length (filter (\<lambda>i. attempt_ok (transport url i)) [0, 1, 2, 3, 4]))
   \<and> (distinct (availableBackends d) \<and> backend \<in> set (Backends d) \<longrightarrow>
        (backend \<in> set (availableBackends (HealthCheck transport d))) =
        (3 \<le> length (filter (\<lambda>i. attempt_ok (transport (backend @ Ping d) i)) [0, 1, 2, 3, 4])))
   \<and> (distinct (availableBackends d) \<and> backend \<in> set finished \<longrightarrow>
        (backend \<in> set (availableBackends (HealthCheck_order transport finished d))) =
        (3 \<le> length (filter (\<lambda>i. attempt_ok (transport (backend @ Ping d) i)) [0, 1, 2, 3, 4])))"
proof -
  have c: "doCheck transport u =
      (3 \<le> length (filter (\<lambda>i. attempt_ok (transport u i)) [0, 1, 2, 3, 4]))" for u
  proof -
    let ?ok = "filter (\<lambda>i. attempt_ok (transport u i)) [0, 1, 2, 3, 4]"
    have "doCheck transport u = (3 \<le> int (length ?ok))"
      unfolding doCheck_def Let_def attempts_values sum_of_flags by simp
    also have "\<dots> = (3 \<le> length ?ok)"
      by arith
    finally show ?thesis .
  qed
  have v: "attempts (transport url) 0 =
       map (\<lambda>i. if attempt_ok (transport url i) then 1 else 0) [0, 1, 2, 3, 4]"
    by (rule attempts_values)
  have l: "length (attempts (transport url) 0) = 5"
    unfolding v by simp
  have o: "(backend \<in> set (availableBackends (HealthCheck_order transport finished d))) =
      (3 \<le> length (filter (\<lambda>i. attempt_ok (transport (backend @ Ping d) i)) [0, 1, 2, 3, 4]))"
    if "distinct (availableBackends d) \<and> backend \<in> set finished" for finished
    using that HealthCheck_order_marks [of d backend finished transport] c by simp
  have h: "(backend \<in> set (availableBackends (HealthCheck transport d))) =
      (3 \<le> length (filter (\<lambda>i. attempt_ok (transport (backend @ Ping d) i)) [0, 1, 2, 3, 4]))"
    if "distinct (availableBackends d) \<and> backend \<in> set (Backends d)"
    using that o [of "Backends d"] by (simp add: HealthCheck_is_order)
  from l v c [of url] h o [of finished] show ?thesis
    by blast
qed

text \<open>
  A group with the backends \<open>a\<close> and \<open>b\<close>, of which only \<open>b\<close> is live. The
  probe of \<open>a\<close> fails twice and then succeeds three times; the probe of \<open>b\<close>
  succeeds twice and then answers 500. After the cycle \<open>a\<close> is live and \<open>b\<close> is
  not, also when the probe of \<open>b\<close> finishes first.
\<close>

theorem doCheck_majority_witness:
  "''http://a'' \<in> set (availableBackends (HealthCheck
       (\<lambda>url i. if url = ''http://a/ping'' then (if i < 2 then Inl ''timeout'' else Inr 200)
                 else (if i < 2 then Inr 204 else Inr 500))
       \<lparr>Name = ''api'', Policy = ''roundRobin'', Ping = ''/ping'',
        Backends = [''http://a'', ''http://b''], availableBackends = [''http://b''],
        Hosts = [], Prefixs = [], Priority = 8, roubin = 0\<rparr>))
   \<and> ''http://b'' \<notin> set (availableBackends (HealthCheck
       (\<lambda>url i. if url = ''http://a/ping'' then (if i < 2 then Inl ''timeout'' else Inr 200)
                 else (if i < 2 then Inr 204 else Inr 500))
       \<lparr>Name = ''api'', Policy = ''roundRobin'', Ping = ''/ping'',
        Backends = [''http://a'', ''http://b''], availableBackends = [''http://b''],
        Hosts = [], Prefixs = [], Priority = 8, roubin = 0\<rparr>))
   \<and> ''http://a'' \<in> set (availableBackends (HealthCheck_order
       (\<lambda>url i. if url = ''http://a/ping'' then (if i < 2 then Inl ''timeout'' else Inr 200)
                 else (if i < 2 then Inr 204 else Inr 500))
       [''http://b'', ''http://a'']
       \<lparr>Name = ''api'', Policy = ''roundRobin'', Ping = ''/ping'',
        Backends = [''http://a'', ''http://b''], availableBackends = [''http://b''],
        Hosts = [], Prefixs = [], Priority = 8, roubin = 0\<rparr>))
   \<and> ''http://b'' \<notin> set (availableBackends (HealthCheck_order
       (\<lambda>url i. if url = ''http://a/ping'' then (if i < 2 then Inl ''timeout'' else Inr 200)
                 else (if i < 2 then Inr 204 else Inr 500))
       [''http://b'', ''http://a'']
       \<lparr>Name = ''api'', Policy = ''roundRobin'', Ping = ''/ping'',
        Backends = [''http://a'', ''http://b''], availableBackends = [''http://b''],
        Hosts = [], Prefixs = [], Priority = 8, roubin = 0\<rparr>))"
proof -
  let ?t = "\<lambda>url i. if url = ''http://a/ping'' then (if i < (2::nat) then Inl ''timeout'' else Inr (200::int))
                 else (if i < 2 then Inr 204 else Inr 500)"
  let ?d = "\<lparr>Name = ''api'', Policy = ''roundRobin'', Ping = ''/ping'',
        Backends = [''http://a'', ''http://b''], availableBackends = [''http://b''],
        Hosts = [], Prefixs = [], Priority = 8, roubin = 0\<rparr>"
  let ?f = "[''http://b'', ''http://a'']"
  note ta = doCheck_majority [of ?t "''http://a/ping''" ?d "''http://a''" ?f]
  note tb = doCheck_majority [of ?t "''http://b/ping''" ?d "''http://b''" ?f]
  have ha: "distinct (availableBackends ?d) \<and> ''http://a'' \<in> set (Backends ?d)"
    and hb: "distinct (availableBackends ?d) \<and> ''http://b'' \<in> set (Backends ?d)"
    and fa: "distinct (availableBackends ?d) \<and> ''http://a'' \<in> set ?f"
    and fb: "distinct (availableBackends ?d) \<and> ''http://b'' \<in> set ?f"
    by simp_all
  have ca: "(3 \<le> length (filter (\<lambda>i. attempt_ok (?t (''http://a'' @ Ping ?d) i)) [0, 1, 2, 3, 4])) = True"
    by (simp add: attempt_ok_def)
  have cb: "(3 \<le> length (filter (\<lambda>i. attempt_ok (?t (''http://b'' @ Ping ?d) i)) [0, 1, 2, 3, 4])) = False"
    by (simp add: attempt_ok_def)
  from ta ha have "(''http://a'' \<in> set (availableBackends (HealthCheck ?t ?d))) =
      (3 \<le> length (filter (\<lambda>i. attempt_ok (?t (''http://a'' @ Ping ?d) i)) [0, 1, 2, 3, 4]))"
    by blast
  then have a1: "''http://a'' \<in> set (availableBackends (HealthCheck ?t ?d))"
    unfolding ca by simp
  from tb hb have "(''http://b'' \<in> set (availableBackends (HealthCheck ?t ?d))) =
      (3 \<le> length (filter (\<lambda>i. attempt_ok (?t (''http://b'' @ Ping ?d) i)) [0, 1, 2, 3, 4]))"
    by blast
  then have b1: "''http://b'' \<notin> set (availableBackends (HealthCheck ?t ?d))"
    unfolding cb by simp
  from ta fa have "(''http://a'' \<in> set (availableBackends (HealthCheck_order ?t ?f ?d))) =
      (3 \<le> length (filter (\<lambda>i. attempt_ok (?t (''http://a'' @ Ping ?d) i)) [0, 1, 2, 3, 4]))"
    by blast
  then have a2: "''http://a'' \<in> set (availableBackends (HealthCheck_order ?t ?f ?d))"
    unfolding ca by simp
  from tb fb have "(''http://b'' \<in> set (availableBackends (HealthCheck_order ?t ?f ?d))) =
      (3 \<le> length (filter (\<lambda>i. attempt_ok (?t (''http://b'' @ Ping ?d) i)) [0, 1, 2, 3, 4]))"
    by blast
  then have b2: "''http://b'' \<notin> set (availableBackends (HealthCheck_order ?t ?f ?d))"
    unfolding cb by simp
  from a1 b1 a2 b2 show ?thesis
    by (intro conjI)
qed

lemma absent_header_or_cookie:
  "(Policy_u us = headerHashPrefix @ key \<and> RequestHeader_c c key = None \<longrightarrow>
      createProxyHandler us server c =
        (case GetAvailableUpstream server 2166136261 of
           None \<Rightarrow> errNoAvailableUpstream | Some url \<Rightarrow> Ok url))
   \<and> (Policy_u us = cookieHashPrefix @ key \<and> Cookie_c c key = None \<longrightarrow>
      createProxyHandler us server c =
        (case GetAvailableUpstream server 0 of
           None \<Rightarrow> errNoAvailableUpstream | Some url \<Rightarrow> Ok url))"
proof (intro conjI impI)
  assume a: "Policy_u us = headerHashPrefix @ key \<and> RequestHeader_c c key = None"
  then have "defaultIndex (Policy_u us) c = 2166136261"
    by (simp add: defaultIndex_header GetRequestHeader_def hash_empty)
  then show "createProxyHandler us server c =
        (case GetAvailableUpstream server 2166136261 of
           None \<Rightarrow> errNoAvailableUpstream | Some url \<Rightarrow> Ok url)"
    using handler_default_branch [of us server c] prefixed_policy_is_default(1) [of key] a
    by simp
next
  assume a: "Policy_u us = cookieHashPrefix @ key \<and> Cookie_c c key = None"
  then have "defaultIndex (Policy_u us) c = 0"
    by (simp add: defaultIndex_cookie)
  then show "createProxyHandler us server c =
        (case GetAvailableUpstream server 0 of
           None \<Rightarrow> errNoAvailableUpstream | Some url \<Rightarrow> Ok url)"
    using handler_default_branch [of us server c] prefixed_policy_is_default(2) [of key] a
    by simp
qed

text \<open>
  Against a server that reduces the index modulo its live backends, the absent cookie
  selects the first live backend, and the absent header the one at the remainder of
  2166136261.
\<close>

lemma absent_cookie_first_backend:
  assumes "Policy_u us = cookieHashPrefix @ key" and "Cookie_c c key = None"
    and "GetAvailableUpstream server = spec_GetAvailableUpstream live" and "live \<noteq> []"
  shows "createProxyHandler us server c = Ok (hd live)"
  using absent_header_or_cookie [of us key c server] assms
  by (simp add: spec_GetAvailableUpstream_def hd_conv_nth)

lemma absent_header_backend:
  assumes "Policy_u us = headerHashPrefix @ key" and "RequestHeader_c c key = None"
    and "GetAvailableUpstream server = spec_GetAvailableUpstream live" and "live \<noteq> []"
  shows "createProxyHandler us server c = Ok (live ! (2166136261 mod length live))"
  using absent_header_or_cookie [of us key c server] assms
  by (simp add: spec_GetAvailableUpstream_def)

text \<open>
  C7. A request that lacks the named header or cookie should hash to index 0 and fall
  back to the first live backend. For a request without cookies and without the header,
  over the live backends \<open>a\<close> and \<open>b\<close>: the \<^verbatim>\<open>cookie:\<close> policy gives index 0
  and selects \<open>a\<close>, as it should; the \<^verbatim>\<open>header:\<close> policy hashes the empty string
  that \<^verbatim>\<open>GetRequestHeader\<close> returns, gives index 2166136261 and selects \<open>b\<close>.
\<close>

theorem absent_header_not_first:
  "defaultIndex ''cookie:sid''
     \<lparr>RealIP_c = ''10.0.0.1'', Host_c = ''example.com'', RequestURI_c = ''/'',
      RequestHeader_c = Map.empty, Cookie_c = Map.empty\<rparr> = 0
   \<and> createProxyHandler
     \<lparr>Policy_u = ''cookie:sid'', Priority_u = 8, Name_u = ''api'', Header_u = None,
      RequestHeader_u = None, server_u = \<lparr>Ping_h = ''/ping'', added_h = []\<rparr>,
      Hosts_u = [], Prefixs_u = [], Rewrites_u = []\<rparr>
     \<lparr>PolicyFirst = Some ''http://a'', PolicyRandom = Some ''http://a'',
      PolicyRoundRobin = Some ''http://a'', PolicyLeastconn = Some ''http://a'',
      GetAvailableUpstream = spec_GetAvailableUpstream [''http://a'', ''http://b'']\<rparr>
     \<lparr>RealIP_c = ''10.0.0.1'', Host_c = ''example.com'', RequestURI_c = ''/'',
      RequestHeader_c = Map.empty, Cookie_c = Map.empty\<rparr> = Ok ''http://a''
   \<and> defaultIndex ''header:X-User''
     \<lparr>RealIP_c = ''10.0.0.1'', Host_c = ''example.com'', RequestURI_c = ''/'',
      RequestHeader_c = Map.empty, Cookie_c = Map.empty\<rparr> = 2166136261
   \<and> createProxyHandler
     \<lparr>Policy_u = ''header:X-User'', Priority_u = 8, Name_u = ''api'', Header_u = None,
      RequestHeader_u = None, server_u = \<lparr>Ping_h = ''/ping'', added_h = []\<rparr>,
      Hosts_u = [], Prefixs_u = [], Rewrites_u = []\<rparr>
     \<lparr>PolicyFirst = Some ''http://a'', PolicyRandom = Some ''http://a'',
      PolicyRoundRobin = Some ''http://a'', PolicyLeastconn = Some ''http://a'',
      GetAvailableUpstream = spec_GetAvailableUpstream [''http://a'', ''http://b'']\<rparr>
     \<lparr>RealIP_c = ''10.0.0.1'', Host_c = ''example.com'', RequestURI_c = ''/'',
      RequestHeader_c = Map.empty, Cookie_c = Map.empty\<rparr> = Ok ''http://b''"
proof -
  have m: "(2166136261::nat) mod Suc (Suc 0) = 1"
    by (simp flip: numeral_2_eq_2)
  show ?thesis
    by (simp add: createProxyHandler_def defaultIndex_def HasPrefix_def headerHashPrefix_def
      cookieHashPrefix_def GetRequestHeader_def hash_empty spec_GetAvailableUpstream_def Let_def m
      policyFirst_def policyRandom_def policyRoundRobin_def policyLeastconn_def policyIPHash_def)
qed

text \<open>
  C8, as the code has it. Nothing rejects an unknown policy name when a group is
  built. \<^verbatim>\<open>Director.Select\<close> returns the empty string for a policy that is not
  registered and leaves the director untouched; \<^verbatim>\<open>NewUpstream\<close> keeps every
  non-empty policy string, and the upstream's handler sends a policy it does not know
  through the default branch with index 0.
\<close>

theorem unknown_policy_not_rejected:
  "(selectFuncMap (Policy d) = None \<longrightarrow> Select ec d = (Inr [], d))
   \<and> (Policy_b backend \<noteq> [] \<longrightarrow>
        Policy_u (NewUpstream ConvertToHTTPHeader backend) = Policy_b backend)
   \<and> (Policy_u us \<notin> {policyFirst, policyRandom, policyRoundRobin, policyLeastconn, policyIPHash}
       \<and> \<not> HasPrefix (Policy_u us) headerHashPrefix
       \<and> \<not> HasPrefix (Policy_u us) cookieHashPrefix \<longrightarrow>
        createProxyHandler us server c =
          (case GetAvailableUpstream server 0 of
             None \<Rightarrow> errNoAvailableUpstream | Some url \<Rightarrow> Ok url))"
proof (intro conjI impI)
  assume "selectFuncMap (Policy d) = None"
  then show "Select ec d = (Inr [], d)"
    by (rule Select_unknown)
next
  assume "Policy_b backend \<noteq> []"
  then show "Policy_u (NewUpstream ConvertToHTTPHeader backend) = Policy_b backend"
    by (simp add: NewUpstream_def createUpstreamFromBackend_Policy)
next
  assume a: "Policy_u us \<notin> {policyFirst, policyRandom, policyRoundRobin, policyLeastconn, policyIPHash}
       \<and> \<not> HasPrefix (Policy_u us) headerHashPrefix
       \<and> \<not> HasPrefix (Policy_u us) cookieHashPrefix"
  then have "defaultIndex (Policy_u us) c = 0"
    by (simp add: defaultIndex_other)
  then show "createProxyHandler us server c =
          (case GetAvailableUpstream server 0 of
             None \<Rightarrow> errNoAvailableUpstream | Some url \<Rightarrow> Ok url)"
    using handler_default_branch [of us server c] a by simp
qed

text \<open>
  The policy name \<open>weighted\<close> is known to neither package: the director answers a
  selection with the empty string, the upstream is built with the name and its handler
  picks the backend at index 0.
\<close>

theorem unknown_policy_not_rejected_witness:
  "Select \<lparr>RealIP = ''10.0.0.1'', randUint32 = 7\<rparr>
     \<lparr>Name = ''api'', Policy = ''weighted'', Ping = ''/ping'', Backends = [''http://a''],
      availableBackends = [''http://a''], Hosts = [], Prefixs = [], Priority = 8, roubin = 0\<rparr>
   = (Inr [],
     \<lparr>Name = ''api'', Policy = ''weighted'', Ping = ''/ping'', Backends = [''http://a''],
      availableBackends = [''http://a''], Hosts = [], Prefixs = [], Priority = 8, roubin = 0\<rparr>)
   \<and> Policy_u (NewUpstream (\<lambda>header. None)
       \<lparr>Name_b = ''api'', Policy_b = ''weighted'', Ping_b = ''/ping'', RequestHeader_b = [],
        Header_b = [], Prefixs_b = [], Hosts_b = [], Backends_b = [''http://a''],
        Rewrites_b = []\<rparr>) = ''weighted''
   \<and> createProxyHandler
     \<lparr>Policy_u = ''weighted'', Priority_u = 8, Name_u = ''api'', Header_u = None,
      RequestHeader_u = None, server_u = \<lparr>Ping_h = ''/ping'', added_h = [(''http://a'', False)]\<rparr>,
      Hosts_u = [], Prefixs_u = [], Rewrites_u = []\<rparr>
     \<lparr>PolicyFirst = None, PolicyRandom = None, PolicyRoundRobin = None, PolicyLeastconn = None,
      GetAvailableUpstream = spec_GetAvailableUpstream [''http://a'']\<rparr>
     \<lparr>RealIP_c = ''10.0.0.1'', Host_c = ''example.com'', RequestURI_c = ''/'',
      RequestHeader_c = Map.empty, Cookie_c = Map.empty\<rparr> = Ok ''http://a''"
proof -
  let ?ec = "\<lparr>RealIP = ''10.0.0.1'', randUint32 = 7\<rparr>"
  let ?d = "\<lparr>Name = ''api'', Policy = ''weighted'', Ping = ''/ping'', Backends = [''http://a''],
      availableBackends = [''http://a''], Hosts = [], Prefixs = [], Priority = 8, roubin = 0\<rparr>"
  let ?b = "\<lparr>Name_b = ''api'', Policy_b = ''weighted'', Ping_b = ''/ping'', RequestHeader_b = [],
        Header_b = [], Prefixs_b = [], Hosts_b = [], Backends_b = [''http://a''],
        Rewrites_b = []\<rparr>"
  let ?us = "\<lparr>Policy_u = ''weighted'', Priority_u = 8, Name_u = ''api'', Header_u = None,
      RequestHeader_u = None, server_u = \<lparr>Ping_h = ''/ping'', added_h = [(''http://a'', False)]\<rparr>,
      Hosts_u = [], Prefixs_u = [], Rewrites_u = []\<rparr>"
  let ?s = "\<lparr>PolicyFirst = None, PolicyRandom = None, PolicyRoundRobin = None, PolicyLeastconn = None,
      GetAvailableUpstream = spec_GetAvailableUpstream [''http://a'']\<rparr>"
  let ?c = "\<lparr>RealIP_c = ''10.0.0.1'', Host_c = ''example.com'', RequestURI_c = ''/'',
      RequestHeader_c = Map.empty, Cookie_c = Map.empty\<rparr>"
  note t = unknown_policy_not_rejected [of ?d ?ec ?b "\<lambda>header. None" ?us ?s ?c]
  have h1: "selectFuncMap (Policy ?d) = None"
    by (simp add: selectFuncMap_def AddSelect_def)
  have h2: "Policy_b ?b \<noteq> []"
    by simp
  have h3: "Policy_u ?us \<notin> {policyFirst, policyRandom, policyRoundRobin, policyLeastconn, policyIPHash}
       \<and> \<not> HasPrefix (Policy_u ?us) headerHashPrefix
       \<and> \<not> HasPrefix (Policy_u ?us) cookieHashPrefix"
    by (simp add: policyFirst_def policyRandom_def policyRoundRobin_def policyLeastconn_def
        policyIPHash_def HasPrefix_def headerHashPrefix_def cookieHashPrefix_def)
  from t h1 have a: "Select ?ec ?d = (Inr [], ?d)"
    by blast
  from t h2 have b: "Policy_u (NewUpstream (\<lambda>header. None) ?b) = ''weighted''"
    by simp
  from t h3 have "createProxyHandler ?us ?s ?c =
      (case GetAvailableUpstream ?s 0 of None \<Rightarrow> errNoAvailableUpstream | Some url \<Rightarrow> Ok url)"
    by blast
  then have c: "createProxyHandler ?us ?s ?c = Ok ''http://a''"
    by (simp add: spec_GetAvailableUpstream_def)
  from a b c show ?thesis
    by blast
qed

text \<open>
  C8, as stated, has the unknown policy name stopped when the group is built. Building
  an upstream with the policy \<open>bogus\<close> returns an upstream that carries the name, and
  a director with that policy answers a selection with the empty string.
\<close>

theorem unknown_policy_accepted:
  "Policy_u (NewUpstream (\<lambda>header. None)
       \<lparr>Name_b = ''api'', Policy_b = ''bogus'', Ping_b = ''/ping'', RequestHeader_b = [],
        Header_b = [], Prefixs_b = [], Hosts_b = [], Backends_b = [''http://a''],
        Rewrites_b = []\<rparr>) = ''bogus''
   \<and> selectFuncMap ''bogus'' = None
   \<and> fst (Select \<lparr>RealIP = ''10.0.0.1'', randUint32 = 7\<rparr>
       \<lparr>Name = ''api'', Policy = ''bogus'', Ping = ''/ping'', Backends = [''http://a''],
        availableBackends = [''http://a''], Hosts = [], Prefixs = [], Priority = 8,
        roubin = 0\<rparr>) = Inr []"
  by (simp add: NewUpstream_def createUpstreamFromBackend_Policy Select_def
      selectFuncMap_def AddSelect_def)

text \<open>
  C10. An upstream built from a configuration with an empty policy gets the policy
  \<open>roundRobin\<close>; any other policy string is kept as it is.
\<close>

theorem default_policy_roundRobin:
  "Policy_u (createUpstreamFromBackend ConvertToHTTPHeader backend) =
     (if Policy_b backend = '''' then ''roundRobin'' else Policy_b backend)"
  by (simp add: createUpstreamFromBackend_Policy policyRoundRobin_def)

end
